theory Spec2Isabelle
  imports Main "HOL-Library.Word" "HOL-Library.Sublist"
begin

section \<open>EventHandler: a callback with an identity\<close>

text \<open>
  \<^verbatim>\<open>typedef unsigned int HandlerId;\<close> The counter is a \<^verbatim>\<open>std::atomic_uint\<close>: an
  unsigned 32-bit value on the platforms the program is built for, whose increment wraps
  around.
\<close>

type_synonym HandlerId = "32 word"

text \<open>
  \<^verbatim>\<open>FunctionHandler functionHandler; HandlerId handlerId;\<close>
  A \<^verbatim>\<open>std::function\<close> is either empty or holds a target; \<open>'f\<close> is the type of targets.
\<close>

record 'f EventHandler =
  functionHandler :: "'f option"
  handlerId :: HandlerId

text \<open>
  \<^verbatim>\<open>std::atomic_uint EventHandler<Args...>::handlerIdCounter(0);\<close>
  The counter is a static member of the class template: the handlers of one argument
  signature share one counter, which starts at 0 when the process starts.
\<close>

definition handlerIdCounter_init :: HandlerId where
  "handlerIdCounter_init = 0"

text \<open>
  \<^verbatim>\<open>explicit EventHandler(FunctionHandler functionHandler)\<close>:
  \<^verbatim>\<open>handlerId = ++handlerIdCounter;\<close> The pre-increment of the atomic is one indivisible
  step that yields the new value. The constructor takes the counter and returns the new
  object with the counter after the increment.
\<close>

definition EventHandler_new :: "'f option \<Rightarrow> HandlerId \<Rightarrow> 'f EventHandler \<times> HandlerId" where
  "EventHandler_new f handlerIdCounter =
     (let c = handlerIdCounter + 1
      in (\<lparr>functionHandler = f, handlerId = c\<rparr>, c))"

text \<open>\<^verbatim>\<open>EventHandler(const EventHandler& other)\<close>\<close>

definition EventHandler_copy :: "'f EventHandler \<Rightarrow> 'f EventHandler" where
  "EventHandler_copy other =
     \<lparr>functionHandler = functionHandler other, handlerId = handlerId other\<rparr>"

text \<open>
  \<^verbatim>\<open>EventHandler(EventHandler&& other)\<close>: the callback is move-constructed from
  \<open>other\<close>'s, which leaves \<open>other\<close>'s \<^verbatim>\<open>std::function\<close> empty; the identity is copied.
  The result is the new object and \<open>other\<close> afterwards.
\<close>

definition EventHandler_move :: "'f EventHandler \<Rightarrow> 'f EventHandler \<times> 'f EventHandler" where
  "EventHandler_move other =
     (\<lparr>functionHandler = functionHandler other, handlerId = handlerId other\<rparr>,
      other\<lparr>functionHandler := None\<rparr>)"

text \<open>\<^verbatim>\<open>EventHandler& operator=(const EventHandler& other)\<close>: the object afterwards.\<close>

definition EventHandler_assign :: "'f EventHandler \<Rightarrow> 'f EventHandler \<Rightarrow> 'f EventHandler" where
  "EventHandler_assign this other =
     this\<lparr>handlerId := handlerId other, functionHandler := functionHandler other\<rparr>"

text \<open>
  \<^verbatim>\<open>EventHandler& operator=(EventHandler&& other)\<close>:
  \<^verbatim>\<open>std::swap(functionHandler, other.functionHandler); handlerId = other.handlerId;\<close>
  The result is the object and \<open>other\<close> afterwards (two distinct objects).
\<close>

definition EventHandler_move_assign ::
  "'f EventHandler \<Rightarrow> 'f EventHandler \<Rightarrow> 'f EventHandler \<times> 'f EventHandler" where
  "EventHandler_move_assign this other =
     (this\<lparr>functionHandler := functionHandler other, handlerId := handlerId other\<rparr>,
      other\<lparr>functionHandler := functionHandler this\<rparr>)"

text \<open>\<^verbatim>\<open>bool operator==(const EventHandler& other) const\<close>\<close>

definition EventHandler_eq :: "'f EventHandler \<Rightarrow> 'f EventHandler \<Rightarrow> bool" where
  "EventHandler_eq this other = (handlerId this = handlerId other)"

text \<open>\<^verbatim>\<open>HandlerId Id() const\<close>\<close>

definition Id :: "'f EventHandler \<Rightarrow> HandlerId" where
  "Id this = handlerId this"

text \<open>
  A history of constructions: the handlers built from the callbacks \<open>fs\<close>, one after the
  other, in the order of their increments of the counter. Constructions on several threads
  are ordered the same way, since each takes its identity in one atomic step.
\<close>

fun construct_all :: "'f option list \<Rightarrow> HandlerId \<Rightarrow> 'f EventHandler list \<times> HandlerId" where
  "construct_all [] c = ([], c)"
| "construct_all (f # fs) c =
     (case EventHandler_new f c of
        (h, c') \<Rightarrow> (case construct_all fs c' of (hs, c'') \<Rightarrow> (h # hs, c'')))"

section \<open>Event: an ordered collection of handlers\<close>

text \<open>
  \<^verbatim>\<open>typedef std::list<HandlerType> HandlerCollection; HandlerCollection handlers;\<close>
  Every member function below that touches \<open>handlers\<close> does so inside one
  \<^verbatim>\<open>std::lock_guard\<close> on the event's own \<^verbatim>\<open>m_handlersLocker\<close>, so each is one atomic
  step on the event. The mutex itself is modelled in the section on copying events.
\<close>

record 'f Event =
  handlers :: "'f EventHandler list"

text \<open>
  Iterators into a list are positions: \<open>0\<close> is \<^verbatim>\<open>begin()\<close>, the length is \<^verbatim>\<open>end()\<close>.
  \<^verbatim>\<open>std::find_if(first, last, p)\<close> returns the first position whose element satisfies
  \<open>p\<close>, or \<^verbatim>\<open>last\<close>; \<^verbatim>\<open>std::find\<close> is \<^verbatim>\<open>find_if\<close> with \<^verbatim>\<open>operator==\<close>;
  \<^verbatim>\<open>erase(it)\<close> removes the element at a position.
\<close>

fun find_if :: "('a \<Rightarrow> bool) \<Rightarrow> 'a list \<Rightarrow> nat" where
  "find_if p [] = 0"
| "find_if p (x # xs) = (if p x then 0 else Suc (find_if p xs))"

definition erase :: "nat \<Rightarrow> 'a list \<Rightarrow> 'a list" where
  "erase it xs = take it xs @ drop (Suc it) xs"

text \<open>
  \<^verbatim>\<open>HandlerId Add(const HandlerType& handler)\<close>:
  \<^verbatim>\<open>handlers.push_back(handler); return handler.Id();\<close>
\<close>

definition Add :: "'f EventHandler \<Rightarrow> 'f Event \<Rightarrow> HandlerId \<times> 'f Event" where
  "Add handler this =
     (Id handler, this\<lparr>handlers := handlers this @ [EventHandler_copy handler]\<rparr>)"

text \<open>\<^verbatim>\<open>bool Remove(const HandlerType& handler)\<close>\<close>

definition Remove :: "'f EventHandler \<Rightarrow> 'f Event \<Rightarrow> bool \<times> 'f Event" where
  "Remove handler this =
     (let it = find_if (\<lambda>h. EventHandler_eq h handler) (handlers this)
      in if it \<noteq> length (handlers this)
         then (True, this\<lparr>handlers := erase it (handlers this)\<rparr>)
         else (False, this))"

text \<open>\<^verbatim>\<open>bool RemoveId(const HandlerId& handlerId)\<close>\<close>

definition RemoveId :: "HandlerId \<Rightarrow> 'f Event \<Rightarrow> bool \<times> 'f Event" where
  "RemoveId hid this =
     (let it = find_if (\<lambda>handler. Id handler = hid) (handlers this)
      in if it \<noteq> length (handlers this)
         then (True, this\<lparr>handlers := erase it (handlers this)\<rparr>)
         else (False, this))"

text \<open>\<^verbatim>\<open>HandlerCollection GetHandlersCopy() const\<close>: a copy of the list, element by element.\<close>

definition GetHandlersCopy :: "'f Event \<Rightarrow> 'f EventHandler list" where
  "GetHandlersCopy this = map EventHandler_copy (handlers this)"

section \<open>Calling the handlers\<close>

text \<open>
  A callback may capture references to anything, the event it is registered with
  included, and may throw. The state a callback can reach is a \<open>world\<close>: the event, the
  static counter of identities, and the rest of the program's state. A callback cannot
  be a function stored inside the world it acts on, so the target of a
  \<^verbatim>\<open>std::function\<close> is a value of \<open>'f\<close>, and a parameter \<open>target\<close> of the model gives what
  invoking it with arguments \<open>'a\<close> does: the exception it throws, if any, and the world it
  leaves. Callbacks are assumed to return or throw.
\<close>

datatype exn = Thrown nat

record ('f, 'u) world =
  event :: "'f Event"
  handlerIdCounter :: HandlerId
  user :: 'u

type_synonym ('f, 'a, 'u) target =
  "'f \<Rightarrow> 'a \<Rightarrow> ('f, 'u) world \<Rightarrow> exn option \<times> ('f, 'u) world"

text \<open>
  \<^verbatim>\<open>void operator()(Args... params) const\<close>:
  \<^verbatim>\<open>if (functionHandler) { functionHandler(params...); }\<close>
\<close>

definition EventHandler_call ::
  "('f, 'a, 'u) target \<Rightarrow> 'f EventHandler \<Rightarrow> 'a \<Rightarrow> ('f, 'u) world
     \<Rightarrow> exn option \<times> ('f, 'u) world" where
  "EventHandler_call target this params w =
     (case functionHandler this of
        None \<Rightarrow> (None, w)
      | Some f \<Rightarrow> target f params w)"

text \<open>
  What a call did: the handlers it invoked, in order (a log kept for the proofs, not a
  variable of the program), the exception that left it, and the world afterwards.
\<close>

record ('f, 'u) outcome =
  invoked :: "'f EventHandler list"
  thrown :: "exn option"
  world_after :: "('f, 'u) world"

text \<open>
  \<^verbatim>\<open>void CallImpl(const HandlerCollection& handlers, Args... params) const\<close>:
  \<^verbatim>\<open>for (const auto& handler : handlers) { handler(params...); }\<close>
  No \<^verbatim>\<open>try\<close> surrounds the invocation: an exception leaves the loop.
\<close>

fun CallImpl ::
  "('f, 'a, 'u) target \<Rightarrow> 'f EventHandler list \<Rightarrow> 'a \<Rightarrow> ('f, 'u) world
     \<Rightarrow> ('f, 'u) outcome" where
  "CallImpl target [] params w = \<lparr>invoked = [], thrown = None, world_after = w\<rparr>"
| "CallImpl target (handler # rest) params w =
     (case EventHandler_call target handler params w of
        (Some e, w') \<Rightarrow> \<lparr>invoked = [handler], thrown = Some e, world_after = w'\<rparr>
      | (None, w') \<Rightarrow>
          (let r = CallImpl target rest params w'
           in r\<lparr>invoked := handler # invoked r\<rparr>))"

text \<open>
  \<^verbatim>\<open>void Call(Args... params) const\<close>:
  \<^verbatim>\<open>HandlerCollection handlerCollectionCopy = GetHandlersCopy();\<close>
  \<^verbatim>\<open>CallImpl(handlerCollectionCopy, params...);\<close>
\<close>

definition Call :: "('f, 'a, 'u) target \<Rightarrow> 'a \<Rightarrow> ('f, 'u) world \<Rightarrow> ('f, 'u) outcome" where
  "Call target params w =
     (let handlerCollectionCopy = GetHandlersCopy (event w)
      in CallImpl target handlerCollectionCopy params w)"

text \<open>
  \<^verbatim>\<open>HandlerId Add(const FunctionHandler& handler)\<close>:
  \<^verbatim>\<open>return Add(HandlerType(handler));\<close> It constructs a handler, which takes the next
  identity, and appends it.
\<close>

definition Add_function :: "'f option \<Rightarrow> ('f, 'u) world \<Rightarrow> HandlerId \<times> ('f, 'u) world" where
  "Add_function handler w =
     (case EventHandler_new handler (handlerIdCounter w) of
        (h, c) \<Rightarrow>
          (case Add h (event w) of
             (hid, ev) \<Rightarrow> (hid, w\<lparr>event := ev, handlerIdCounter := c\<rparr>)))"

subsection \<open>A call among other threads\<close>

text \<open>
  The same code, one step at a time, so that other threads can run in between. The
  calling thread is at the entry of \<open>Call\<close>, or inside the loop of \<open>CallImpl\<close> with its
  copy, the part of the copy not yet visited and the log of handlers invoked, or it has
  left \<open>Call\<close> (normally, or by an exception).
\<close>

datatype 'f call_pc =
    Entry
  | InLoop "'f EventHandler list" "'f EventHandler list" "'f EventHandler list"
  | Returned "'f EventHandler list" "'f EventHandler list" "exn option"

text \<open>
  One step of the calling thread: taking the copy (under the lock), invoking the next
  handler of the copy (the lock is not held), or leaving the loop at its end.
\<close>

fun Call_step ::
  "('f, 'a, 'u) target \<Rightarrow> 'a \<Rightarrow> 'f call_pc \<times> ('f, 'u) world \<Rightarrow> 'f call_pc \<times> ('f, 'u) world" where
  "Call_step target params (Entry, w) =
     (let handlerCollectionCopy = GetHandlersCopy (event w)
      in (InLoop handlerCollectionCopy handlerCollectionCopy [], w))"
| "Call_step target params (InLoop copy [] seen, w) = (Returned copy seen None, w)"
| "Call_step target params (InLoop copy (handler # rest) seen, w) =
     (case EventHandler_call target handler params w of
        (Some e, w') \<Rightarrow> (Returned copy (seen @ [handler]) (Some e), w')
      | (None, w') \<Rightarrow> (InLoop copy rest (seen @ [handler]), w'))"
| "Call_step target params (Returned copy seen r, w) = (Returned copy seen r, w)"

text \<open>
  A schedule: at each point either the calling thread takes its next step, or another
  thread does something to the shared world (an \<open>Add\<close>, \<open>Remove\<close> or \<open>RemoveId\<close> on the same
  event, each atomic under the event's lock, or anything else).
\<close>

datatype ('f, 'u) sched = Self | Other "('f, 'u) world \<Rightarrow> ('f, 'u) world"


fun run_Call ::
  "('f, 'a, 'u) target \<Rightarrow> 'a \<Rightarrow> ('f, 'u) sched list \<Rightarrow> 'f call_pc \<times> ('f, 'u) world
     \<Rightarrow> 'f call_pc \<times> ('f, 'u) world" where
  "run_Call target params [] cfg = cfg"
| "run_Call target params (Self # sched) cfg =
     run_Call target params sched (Call_step target params cfg)"
| "run_Call target params (Other g # sched) cfg =
     run_Call target params sched (fst cfg, g (snd cfg))"





section \<open>Copying and moving events: the locks\<close>

text \<open>
  The special member functions of \<open>Event\<close> take locks with \<^verbatim>\<open>std::lock_guard\<close>, one
  after the other, each blocking until the mutex is free. To see what two threads can do
  to each other, each member function is the list of its steps, events are named by
  their addresses, and the machine holds, for every address, the owner of the event's
  \<^verbatim>\<open>m_handlersLocker\<close> (if it is locked) and the event's \<open>handlers\<close>.
\<close>

type_synonym addr = nat
type_synonym tid = nat

datatype instr =
    Lock addr
  | Unlock addr
  | CopyHandlers addr addr
  | MoveHandlers addr addr
  | SwapHandlers addr addr

text \<open>
  \<^verbatim>\<open>Event(const Event& other)\<close>:
  \<^verbatim>\<open>std::lock_guard<std::mutex> lock(m_handlersLocker); handlers = other.handlers;\<close>
\<close>

definition Event_copy :: "addr \<Rightarrow> addr \<Rightarrow> instr list" where
  "Event_copy this other = [Lock this, CopyHandlers this other, Unlock this]"

text \<open>
  \<^verbatim>\<open>Event(Event&& other)\<close>:
  \<^verbatim>\<open>std::lock_guard<std::mutex> lock(m_handlersLocker); handlers = std::move(other.handlers);\<close>
\<close>

definition Event_move :: "addr \<Rightarrow> addr \<Rightarrow> instr list" where
  "Event_move this other = [Lock this, MoveHandlers this other, Unlock this]"

text \<open>
  \<^verbatim>\<open>Event& operator=(const Event& other)\<close>:
  \<^verbatim>\<open>std::lock_guard<std::mutex> lock(m_handlersLocker);\<close>
  \<^verbatim>\<open>std::lock_guard<std::mutex> lock2(other.m_handlersLocker);\<close>
  \<^verbatim>\<open>handlers = other.handlers;\<close> The guards are released in the reverse order.
\<close>

definition Event_assign :: "addr \<Rightarrow> addr \<Rightarrow> instr list" where
  "Event_assign this other =
     [Lock this, Lock other, CopyHandlers this other, Unlock other, Unlock this]"

text \<open>
  \<^verbatim>\<open>Event& operator=(Event&& other)\<close>: the same two guards, then
  \<^verbatim>\<open>std::swap(handlers, other.handlers);\<close>
\<close>

definition Event_move_assign :: "addr \<Rightarrow> addr \<Rightarrow> instr list" where
  "Event_move_assign this other =
     [Lock this, Lock other, SwapHandlers this other, Unlock other, Unlock this]"

record 'f machine =
  m_handlersLocker :: "addr \<Rightarrow> tid option"
  handlers_at :: "addr \<Rightarrow> 'f EventHandler list"
  threads :: "instr list list"

text \<open>
  One instruction of thread \<open>t\<close>; \<open>None\<close> when the thread cannot take it now: a
  \<^verbatim>\<open>std::mutex\<close> that is locked blocks whoever locks it, its owner included.
\<close>

fun exec_instr :: "tid \<Rightarrow> instr \<Rightarrow> 'f machine \<Rightarrow> 'f machine option" where
  "exec_instr t (Lock a) m =
     (if m_handlersLocker m a = None
      then Some (m\<lparr>m_handlersLocker := (m_handlersLocker m)(a := Some t)\<rparr>)
      else None)"
| "exec_instr t (Unlock a) m =
     Some (m\<lparr>m_handlersLocker := (m_handlersLocker m)(a := None)\<rparr>)"
| "exec_instr t (CopyHandlers this other) m =
     Some (m\<lparr>handlers_at := (handlers_at m)(this := handlers_at m other)\<rparr>)"
| "exec_instr t (MoveHandlers this other) m =
     Some (m\<lparr>handlers_at := (handlers_at m)(other := [], this := handlers_at m other)\<rparr>)"
| "exec_instr t (SwapHandlers this other) m =
     Some (m\<lparr>handlers_at :=
             (handlers_at m)(this := handlers_at m other, other := handlers_at m this)\<rparr>)"

definition thread_step :: "tid \<Rightarrow> 'f machine \<Rightarrow> 'f machine option" where
  "thread_step t m =
     (if t < length (threads m)
      then (case threads m ! t of
              [] \<Rightarrow> None
            | i # rest \<Rightarrow>
                (case exec_instr t i m of
                   None \<Rightarrow> None
                 | Some m' \<Rightarrow> Some (m'\<lparr>threads := (threads m)[t := rest]\<rparr>)))
      else None)"

text \<open>A schedule names the thread that takes each step.\<close>

fun run_threads :: "tid list \<Rightarrow> 'f machine \<Rightarrow> 'f machine option" where
  "run_threads [] m = Some m"
| "run_threads (t # ts) m =
     (case thread_step t m of
        None \<Rightarrow> None
      | Some m' \<Rightarrow> run_threads ts m')"

definition blocked :: "'f machine \<Rightarrow> tid \<Rightarrow> bool" where
  "blocked m t = (case thread_step t m of None \<Rightarrow> True | Some m' \<Rightarrow> False)"

text \<open>A deadlock: some thread has steps left, and no thread can take a step.\<close>

definition deadlocked :: "'f machine \<Rightarrow> bool" where
  "deadlocked m =
     (list_ex (\<lambda>prog. prog \<noteq> []) (threads m)
      \<and> list_all (blocked m) [0..<length (threads m)])"

text \<open>Two events \<open>a\<close> (at 0) and \<open>b\<close> (at 1), unlocked; one thread runs \<^verbatim>\<open>a = b\<close>, the other \<^verbatim>\<open>b = a\<close>.\<close>

definition cross_assign :: "'f EventHandler list \<Rightarrow> 'f EventHandler list \<Rightarrow> 'f machine" where
  "cross_assign ha hb =
     \<lparr>m_handlersLocker = (\<lambda>a. None),
      handlers_at = (\<lambda>a. if a = 0 then ha else hb),
      threads = [Event_assign 0 1, Event_assign 1 0]\<rparr>"

section \<open>CallAsync\<close>

text \<open>
  \<^verbatim>\<open>std::future<void> CallAsync(Args... params) const\<close> returns
  \<^verbatim>\<open>std::async(std::launch::async, [this](Args... asyncParams) { call(asyncParams...); }, params...)\<close>.
  The body of the lambda calls the name \<^verbatim>\<open>call\<close>. Names are looked up by their exact
  spelling. The member functions of \<open>Event\<close> that can be called with \<^verbatim>\<open>Args...\<close> are
  \<^verbatim>\<open>Call\<close> and \<^verbatim>\<open>operator()\<close>; the file declares no function \<^verbatim>\<open>call\<close> at any scope. The
  lookup is done when the member is instantiated, which the program never does.
\<close>

datatype ill_formed = Undeclared string

definition Event_callable ::
  "(string \<times> (('f, 'a, 'u) target \<Rightarrow> 'a \<Rightarrow> ('f, 'u) world \<Rightarrow> ('f, 'u) outcome)) list" where
  "Event_callable = [(''Call'', Call), (''operator()'', Call)]"

definition CallAsync ::
  "('f, 'a, 'u) target \<Rightarrow> 'a \<Rightarrow> ('f, 'u) world \<Rightarrow> ill_formed + ('f, 'u) outcome" where
  "CallAsync target params w =
     (case map_of Event_callable ''call'' of
        None \<Rightarrow> Inl (Undeclared ''call'')
      | Some member \<Rightarrow> Inr (member target params w))"

section \<open>Example subscribers\<close>

text \<open>
  Callbacks for concrete runs: one adds its argument to a counter it captured, one
  registers a new accumulating subscriber with the event it is called from, one removes
  a subscriber from that event by identity, one throws.
\<close>

datatype example = Accumulate | Subscribe | Unsubscribe HandlerId | Fail nat

fun example_target :: "(example, nat, nat) target" where
  "example_target Accumulate n w = (None, w\<lparr>user := user w + n\<rparr>)"
| "example_target Subscribe n w = (None, snd (Add_function (Some Accumulate) w))"
| "example_target (Unsubscribe hid) n w = (None, w\<lparr>event := snd (RemoveId hid (event w))\<rparr>)"
| "example_target (Fail k) n w = (Some (Thrown k), w)"

definition subscriber :: "example \<Rightarrow> HandlerId \<Rightarrow> example EventHandler" where
  "subscriber f hid = \<lparr>functionHandler = Some f, handlerId = hid\<rparr>"

definition example_world :: "example EventHandler list \<Rightarrow> HandlerId \<Rightarrow> (example, nat) world" where
  "example_world hs c = \<lparr>event = \<lparr>handlers = hs\<rparr>, handlerIdCounter = c, user = 0\<rparr>"


definition accumulators :: "(example, nat) world" where
  "accumulators = example_world [subscriber Accumulate 1, subscriber Accumulate 2] 2"

definition failing_second :: "(example, nat) world" where
  "failing_second =
     example_world [subscriber Accumulate 1, subscriber (Fail 7) 2, subscriber Accumulate 3] 3"

definition duplicate_ids :: "example Event" where
  "duplicate_ids =
     \<lparr>handlers = [subscriber Accumulate 1, subscriber Subscribe 2, subscriber (Fail 0) 1,
                  subscriber Accumulate 3]\<rparr>"


section \<open>Properties of EventHandler\<close>

lemma EventHandler_copy_same: "EventHandler_copy (h :: 'f EventHandler) = h"
  by (simp add: EventHandler_copy_def)

text \<open>
  C8. Two handlers compare equal exactly when their identities are equal, whatever their
  callbacks are; a copy of a handler compares equal to the original.
\<close>

theorem EventHandler_eq_iff_Id:
  "EventHandler_eq a b = (Id a = Id b)
   \<and> EventHandler_eq (a\<lparr>functionHandler := f\<rparr>) (b\<lparr>functionHandler := g\<rparr>) = EventHandler_eq a b
   \<and> EventHandler_eq (EventHandler_copy a) a
   \<and> EventHandler_eq a (EventHandler_copy a)"
  by (simp add: EventHandler_eq_def Id_def EventHandler_copy_def)

text \<open>
  C5, as the code has it. Copy construction and copy assignment duplicate the callback
  and the identity. Move construction hands the callback to the new object, leaves the
  source's callback empty and copies the identity. Move assignment swaps the callbacks
  and copies the identity: the destination gets the source's callback and identity, the
  source keeps its identity and gets the callback the destination had before, which is
  empty only if the destination's was.
\<close>

theorem EventHandler_copy_and_move:
  "functionHandler (EventHandler_copy src) = functionHandler src
   \<and> handlerId (EventHandler_copy src) = handlerId src
   \<and> functionHandler (EventHandler_assign dst src) = functionHandler src
   \<and> handlerId (EventHandler_assign dst src) = handlerId src
   \<and> functionHandler (fst (EventHandler_move src)) = functionHandler src
   \<and> handlerId (fst (EventHandler_move src)) = handlerId src
   \<and> functionHandler (snd (EventHandler_move src)) = None
   \<and> handlerId (snd (EventHandler_move src)) = handlerId src
   \<and> functionHandler (fst (EventHandler_move_assign dst src)) = functionHandler src
   \<and> handlerId (fst (EventHandler_move_assign dst src)) = handlerId src
   \<and> functionHandler (snd (EventHandler_move_assign dst src)) = functionHandler dst
   \<and> handlerId (snd (EventHandler_move_assign dst src)) = handlerId src"
  by (simp add: EventHandler_copy_def EventHandler_assign_def EventHandler_move_def
      EventHandler_move_assign_def)

text \<open>
  Move assignment onto a handler that holds a callback: the source is left with that
  callback, not empty.
\<close>

theorem EventHandler_move_assign_source_not_empty:
  "functionHandler (snd (EventHandler_move_assign
      (subscriber Accumulate 2) (subscriber Subscribe 1))) = Some Accumulate"
  by (simp add: EventHandler_move_assign_def subscriber_def)

subsection \<open>Identities\<close>

lemma construct_all_Cons:
  "construct_all (f # fs) c =
     (\<lparr>functionHandler = f, handlerId = c + 1\<rparr> # fst (construct_all fs (c + 1)),
      snd (construct_all fs (c + 1)))"
  by (simp add: EventHandler_new_def Let_def split_beta)


lemma construct_all_counter: "snd (construct_all fs c) = c + of_nat (length fs)"
  by (induction fs arbitrary: c) (simp_all add: construct_all_Cons del: construct_all.simps(2))

lemma construct_all_nth:
  "i < length fs \<Longrightarrow> handlerId (fst (construct_all fs c) ! i) = c + of_nat i + 1"
proof (induction fs arbitrary: c i)
  case Nil
  then show ?case by simp
next
  case (Cons f fs)
  show ?case
  proof (cases i)
    case 0
    then show ?thesis
      by (simp add: construct_all_Cons del: construct_all.simps(2))
  next
    case (Suc j)
    with Cons.prems have "j < length fs" by simp
    from Cons.IH [OF this, of "c + 1"] Suc show ?thesis
      by (simp add: construct_all_Cons del: construct_all.simps(2))
  qed
qed

lemma construct_all_callbacks:
  "map functionHandler (fst (construct_all fs c)) = fs"
  by (induction fs arbitrary: c) (simp_all add: construct_all_Cons del: construct_all.simps(2))

text \<open>Before the counter wraps, the \<open>i\<close>-th construction of the process gets identity \<open>i + 1\<close>.\<close>

lemma construct_all_unat:
  assumes "i < length fs" and "Suc i < 2 ^ 32"
  shows "unat (handlerId (fst (construct_all fs handlerIdCounter_init) ! i)) = Suc i"
proof -
  have "handlerId (fst (construct_all fs handlerIdCounter_init) ! i) = of_nat (Suc i)"
    using construct_all_nth [OF assms(1), of handlerIdCounter_init]
    by (simp add: handlerIdCounter_init_def)
  with assms(2) show ?thesis
    by (simp add: unat_of_nat del: of_nat_Suc)
qed



text \<open>
  C10, as the code has it. The counter starts at 0 and is incremented before it is
  assigned, so the first handler constructed has identity 1, and each of the first
  \<open>2 ^ 32 - 1\<close> handlers constructed since the process started has an identity of at
  least 1, never 0.
\<close>

theorem EventHandler_id_at_least_one:
  assumes "i < length fs" and "i < 2 ^ 32 - 1"
  shows "1 \<le> handlerId (fst (construct_all fs handlerIdCounter_init) ! i)
       \<and> handlerId (fst (construct_all fs handlerIdCounter_init) ! i) \<noteq> 0
       \<and> handlerId (fst (EventHandler_new f handlerIdCounter_init)) = 1"
proof -
  from assms(2) have "Suc i < 2 ^ 32" by simp
  from construct_all_unat [OF assms(1) this]
  have u: "unat (handlerId (fst (construct_all fs handlerIdCounter_init) ! i)) = Suc i" .
  have a: "1 \<le> handlerId (fst (construct_all fs handlerIdCounter_init) ! i)"
    by (simp add: word_le_nat_alt u)
  have b: "handlerId (fst (construct_all fs handlerIdCounter_init) ! i) \<noteq> 0"
    using u by (auto simp del: construct_all.simps)
  have c: "handlerId (fst (EventHandler_new f handlerIdCounter_init)) = 1"
    by (simp add: EventHandler_new_def handlerIdCounter_init_def)
  from a b c show ?thesis by blast
qed

theorem EventHandler_id_at_least_one_witness:
  "handlerId (fst (construct_all [None, Some Accumulate] handlerIdCounter_init) ! 1) = 2
   \<and> 1 \<le> handlerId (fst (construct_all [None, Some Accumulate] handlerIdCounter_init) ! 1)"
proof -
  have i: "1 < length [None, Some Accumulate]" by simp
  have j: "(1::nat) < 2 ^ 32 - 1" by simp
  from EventHandler_id_at_least_one [OF i j] show ?thesis
    by (simp add: EventHandler_new_def handlerIdCounter_init_def)
qed

text \<open>
  The counter wraps: the handler constructed as number \<open>2 ^ 32\<close> since the process
  started is assigned identity 0.
\<close>

theorem EventHandler_id_zero_assigned:
  "handlerId (fst (construct_all (replicate 4294967296 (Some Accumulate))
      handlerIdCounter_init) ! 4294967295) = 0"
proof -
  have l: "length (replicate 4294967296 (Some Accumulate)) = 4294967296"
    by (simp only: length_replicate)
  show ?thesis
    by (subst construct_all_nth) (simp_all only: l, simp_all add: handlerIdCounter_init_def)
qed

section \<open>Properties of Event\<close>

subsection \<open>Removal\<close>

lemma find_if_le: "find_if p xs \<le> length xs"
  by (induction xs) auto

lemma find_if_end_iff: "find_if p xs = length xs \<longleftrightarrow> (\<forall>x \<in> set xs. \<not> p x)"
  by (induction xs) auto

lemma find_if_found: "find_if p xs \<noteq> length xs \<Longrightarrow> p (xs ! find_if p xs)"
  by (induction xs) (auto split: if_splits)

lemma find_if_first: "i < find_if p xs \<Longrightarrow> \<not> p (xs ! i)"
proof (induction xs arbitrary: i)
  case Nil
  then show ?case by simp
next
  case (Cons x xs)
  then show ?case by (cases i) (auto split: if_splits)
qed

lemma erase_find_if:
  "erase (find_if p xs) xs = takeWhile (\<lambda>x. \<not> p x) xs @ tl (dropWhile (\<lambda>x. \<not> p x) xs)"
  by (induction xs) (auto simp: erase_def)

lemma erase_length: "it < length xs \<Longrightarrow> Suc (length (erase it xs)) = length xs"
  by (auto simp: erase_def)

lemma filter_erase_find_if_other:
  "filter (\<lambda>x. \<not> p x) (erase (find_if p xs) xs) = filter (\<lambda>x. \<not> p x) xs"
  by (induction xs) (auto simp: erase_def)

lemma filter_erase_find_if_same:
  "find_if p xs \<noteq> length xs \<Longrightarrow>
   Suc (length (filter p (erase (find_if p xs) xs))) = length (filter p xs)"
  by (induction xs) (auto simp: erase_def)

text \<open>\<open>Remove\<close> compares by \<^verbatim>\<open>operator==\<close>: it is \<open>RemoveId\<close> on the handler's identity.\<close>

lemma Remove_is_RemoveId: "Remove handler this = RemoveId (Id handler) this"
  by (simp add: Remove_def RemoveId_def EventHandler_eq_def Id_def)

text \<open>
  C3. \<open>RemoveId\<close> on an identity that is in the sequence returns true and removes the
  first entry with that identity and nothing else: the entries before it and after it
  stay, in order, the count goes down by exactly one, one entry fewer has that identity
  (so with duplicates the later ones stay), and the entries with other identities are
  untouched. On an identity that is not in the sequence it returns false and leaves the
  event as it was.
\<close>

theorem RemoveId_first_match:
  "(hid \<in> Id ` set (handlers this) \<longrightarrow>
      fst (RemoveId hid this) = True
      \<and> handlers (snd (RemoveId hid this)) =
          takeWhile (\<lambda>h. Id h \<noteq> hid) (handlers this)
          @ tl (dropWhile (\<lambda>h. Id h \<noteq> hid) (handlers this))
      \<and> Suc (length (handlers (snd (RemoveId hid this)))) = length (handlers this)
      \<and> Suc (length (filter (\<lambda>h. Id h = hid) (handlers (snd (RemoveId hid this)))))
          = length (filter (\<lambda>h. Id h = hid) (handlers this))
      \<and> filter (\<lambda>h. Id h \<noteq> hid) (handlers (snd (RemoveId hid this)))
          = filter (\<lambda>h. Id h \<noteq> hid) (handlers this))
   \<and> (hid \<notin> Id ` set (handlers this) \<longrightarrow> RemoveId hid this = (False, this))"
proof (cases "hid \<in> Id ` set (handlers this)")
  case True
  let ?p = "\<lambda>handler. Id handler = hid"
  let ?it = "find_if ?p (handlers this)"
  from True have ne: "?it \<noteq> length (handlers this)"
    by (auto simp: find_if_end_iff)
  then have lt: "?it < length (handlers this)"
    using find_if_le [of ?p "handlers this"] by simp
  have r: "RemoveId hid this = (True, this\<lparr>handlers := erase ?it (handlers this)\<rparr>)"
    using ne by (simp add: RemoveId_def Let_def)
  show ?thesis
    using True
    by (simp add: r erase_find_if [symmetric] erase_length [OF lt]
        filter_erase_find_if_same [OF ne] filter_erase_find_if_other)
next
  case False
  then have "find_if (\<lambda>handler. Id handler = hid) (handlers this) = length (handlers this)"
    by (auto simp: find_if_end_iff)
  with False show ?thesis by (simp add: RemoveId_def Let_def)
qed

theorem RemoveId_first_match_witness:
  "RemoveId 1 duplicate_ids =
     (True, \<lparr>handlers = [subscriber Subscribe 2, subscriber (Fail 0) 1, subscriber Accumulate 3]\<rparr>)
   \<and> RemoveId 5 duplicate_ids = (False, duplicate_ids)"
proof -
  have present: "1 \<in> Id ` set (handlers duplicate_ids)"
    by (simp add: duplicate_ids_def subscriber_def Id_def)
  have absent: "5 \<notin> Id ` set (handlers duplicate_ids)"
    by (simp add: duplicate_ids_def subscriber_def Id_def)
  from RemoveId_first_match [of 1 duplicate_ids] present
  have "fst (RemoveId 1 duplicate_ids) = True"
    and "handlers (snd (RemoveId 1 duplicate_ids)) =
          takeWhile (\<lambda>h. Id h \<noteq> 1) (handlers duplicate_ids)
          @ tl (dropWhile (\<lambda>h. Id h \<noteq> 1) (handlers duplicate_ids))"
    by blast+
  then have a: "RemoveId 1 duplicate_ids =
     (True, \<lparr>handlers = [subscriber Subscribe 2, subscriber (Fail 0) 1, subscriber Accumulate 3]\<rparr>)"
    by (cases "RemoveId 1 duplicate_ids")
      (simp add: duplicate_ids_def subscriber_def Id_def)
  from RemoveId_first_match [of 5 duplicate_ids] absent
  have b: "RemoveId 5 duplicate_ids = (False, duplicate_ids)" by blast
  from a b show ?thesis by blast
qed

subsection \<open>Calls\<close>

lemma GetHandlersCopy_handlers: "GetHandlersCopy this = handlers this"
  by (simp add: GetHandlersCopy_def EventHandler_copy_same map_idI)










text \<open>With no other thread in between, the steps compute what \<open>CallImpl\<close> and \<open>Call\<close> compute.\<close>

lemma run_Call_Returned:
  "run_Call target params (replicate n Self) (Returned copy seen r, w) = (Returned copy seen r, w)"
  by (induction n) auto

lemma run_Call_sequential:
  "run_Call target params (replicate (Suc (length rest)) Self) (InLoop copy rest seen, w)
   = (Returned copy (seen @ invoked (CallImpl target rest params w))
        (thrown (CallImpl target rest params w)),
      world_after (CallImpl target rest params w))"
proof (induction rest arbitrary: seen w)
  case Nil
  then show ?case by simp
next
  case (Cons handler rest)
  obtain r w' where c: "EventHandler_call target handler params w = (r, w')"
    by (cases "EventHandler_call target handler params w")
  show ?case
  proof (cases r)
    case None
    with c Cons.IH [of "seen @ [handler]" w'] show ?thesis
      by (simp add: Let_def)
  next
    case (Some e)
    with c show ?thesis
      by (simp add: run_Call_Returned)
  qed
qed

lemma run_Call_is_Call:
  "run_Call target params (replicate (Suc (Suc (length (handlers (event w))))) Self) (Entry, w)
   = (Returned (handlers (event w)) (invoked (Call target params w))
        (thrown (Call target params w)),
      world_after (Call target params w))"
  using run_Call_sequential [of target params "handlers (event w)" "handlers (event w)" "[]" w]
  by (simp add: Call_def GetHandlersCopy_handlers Let_def)




lemma CallImpl_append:
  "CallImpl target (xs @ ys) params w =
     (case thrown (CallImpl target xs params w) of
        Some e \<Rightarrow> CallImpl target xs params w
      | None \<Rightarrow>
          (CallImpl target ys params (world_after (CallImpl target xs params w)))
            \<lparr>invoked := invoked (CallImpl target xs params w)
               @ invoked (CallImpl target ys params (world_after (CallImpl target xs params w)))\<rparr>)"
proof (induction xs arbitrary: w)
  case Nil
  then show ?case by simp
next
  case (Cons x xs)
  obtain r w' where c: "EventHandler_call target x params w = (r, w')"
    by (cases "EventHandler_call target x params w")
  show ?case
  proof (cases r)
    case None
    with c Cons.IH [of w'] show ?thesis
      by (simp add: Let_def split: option.splits)
  next
    case (Some e)
    with c show ?thesis by simp
  qed
qed

text \<open>
  \<^verbatim>\<open>operator()\<close> contains nothing: with a callback present, invoking the handler is
  invoking the callback, with the same exception and the same effect; with none, it does
  nothing.
\<close>

lemma EventHandler_call_callback:
  "functionHandler h = Some f \<Longrightarrow> EventHandler_call target h params w = target f params w"
  by (simp add: EventHandler_call_def)

lemma EventHandler_call_empty:
  "functionHandler h = None \<Longrightarrow> EventHandler_call target h params w = (None, w)"
  by (simp add: EventHandler_call_def)

text \<open>
  C4. If the subscribers before \<open>h\<close> in the copy return normally and the callback \<open>f\<close> of
  \<open>h\<close> throws \<open>e\<close>, then \<open>e\<close> leaves \<^verbatim>\<open>operator()\<close> of \<open>h\<close> as it is, \<open>Call\<close> is left by
  that same \<open>e\<close>, and the call has invoked the subscribers up to \<open>h\<close> and none of those
  after \<open>h\<close>; the world is the one the callback left.
\<close>

theorem Call_fail_fast:
  assumes "handlers (event w) = pre @ h # post"
    and "CallImpl target pre params w = \<lparr>invoked = pre, thrown = None, world_after = w1\<rparr>"
    and "functionHandler h = Some f"
    and "target f params w1 = (Some e, w2)"
  shows "EventHandler_call target h params w1 = (Some e, w2)
       \<and> Call target params w = \<lparr>invoked = pre @ [h], thrown = Some e, world_after = w2\<rparr>"
proof -
  have op: "EventHandler_call target h params w1 = (Some e, w2)"
    using assms(3,4) by (simp add: EventHandler_call_callback)
  have "Call target params w = CallImpl target (pre @ h # post) params w"
    using assms(1) by (simp add: Call_def GetHandlersCopy_handlers)
  also have "\<dots> = \<lparr>invoked = pre @ [h], thrown = Some e, world_after = w2\<rparr>"
    using assms(2) op by (simp add: CallImpl_append)
  finally show ?thesis using op by simp
qed

theorem Call_fail_fast_witness:
  "Call example_target 5 failing_second
   = \<lparr>invoked = [subscriber Accumulate 1, subscriber (Fail 7) 2],
      thrown = Some (Thrown 7),
      world_after = failing_second\<lparr>user := 5\<rparr>\<rparr>"
proof -
  have a: "handlers (event failing_second)
      = [subscriber Accumulate 1] @ subscriber (Fail 7) 2 # [subscriber Accumulate 3]"
    by (simp add: failing_second_def example_world_def)
  have b: "CallImpl example_target [subscriber Accumulate 1] 5 failing_second
      = \<lparr>invoked = [subscriber Accumulate 1], thrown = None,
         world_after = failing_second\<lparr>user := 5\<rparr>\<rparr>"
    by (simp add: failing_second_def example_world_def subscriber_def EventHandler_call_def
        Let_def)
  have c: "functionHandler (subscriber (Fail 7) 2) = Some (Fail 7)"
    by (simp add: subscriber_def)
  have d: "example_target (Fail 7) 5 (failing_second\<lparr>user := 5\<rparr>)
      = (Some (Thrown 7), failing_second\<lparr>user := 5\<rparr>)"
    by simp
  from Call_fail_fast [OF a b c d] show ?thesis by simp
qed

lemma CallImpl_preserves_event:
  assumes "\<forall>h \<in> set hs. \<forall>f w'. functionHandler h = Some f \<longrightarrow>
             event (snd (target f params w')) = event w'"
  shows "event (world_after (CallImpl target hs params w)) = event w"
  using assms
proof (induction hs arbitrary: w)
  case Nil
  then show ?case by simp
next
  case (Cons x xs)
  obtain r w' where c: "EventHandler_call target x params w = (r, w')"
    by (cases "EventHandler_call target x params w")
  have ev: "event w' = event w"
  proof (cases "functionHandler x")
    case None
    with c show ?thesis by (simp add: EventHandler_call_def)
  next
    case (Some f)
    with c have "snd (target f params w) = w'" by (simp add: EventHandler_call_def)
    with Cons.prems Some show ?thesis by auto
  qed
  show ?case
  proof (cases r)
    case None
    have "event (world_after (CallImpl target xs params w')) = event w'"
      using Cons.prems by (intro Cons.IH) auto
    with c None ev show ?thesis by (simp add: Let_def)
  next
    case (Some e)
    with c ev show ?thesis by simp
  qed
qed

text \<open>
  C9. \<open>Call\<close> itself never writes to the sequence: when no callback of a registered
  subscriber changes the event (none of them adds or removes), the event after the call,
  and so its sequence of subscribers, is the one before the call, whether the call
  returns normally or is left by an exception.
\<close>

theorem Call_preserves_handlers:
  assumes "\<forall>h \<in> set (handlers (event w)). \<forall>f w'. functionHandler h = Some f \<longrightarrow>
             event (snd (target f params w')) = event w'"
  shows "event (world_after (Call target params w)) = event w
       \<and> handlers (event (world_after (Call target params w))) = handlers (event w)"
  using CallImpl_preserves_event [of "handlers (event w)" target params w] assms
  by (simp add: Call_def GetHandlersCopy_handlers)

theorem Call_preserves_handlers_witness:
  "handlers (event (world_after (Call example_target 5 accumulators)))
     = [subscriber Accumulate 1, subscriber Accumulate 2]
   \<and> user (world_after (Call example_target 5 accumulators)) = 10"
proof -
  have quiet: "\<forall>h \<in> set (handlers (event accumulators)). \<forall>f w'.
      functionHandler h = Some f \<longrightarrow> event (snd (example_target f 5 w')) = event w'"
    by (simp add: accumulators_def example_world_def subscriber_def)
  have u: "user (world_after (Call example_target 5 accumulators)) = 10"
    by (simp add: Call_def accumulators_def example_world_def subscriber_def
        GetHandlersCopy_def EventHandler_copy_def EventHandler_call_def Let_def)
  from Call_preserves_handlers [where w = accumulators and target = example_target
      and params = 5, OF quiet]
  have "handlers (event (world_after (Call example_target 5 accumulators)))
      = handlers (event accumulators)" by blast
  with u show ?thesis
    by (simp add: accumulators_def example_world_def)
qed

section \<open>Properties of copying events and of CallAsync\<close>

text \<open>
  C6, which the code does not meet. Copy and move assignment lock the destination first
  and the source second, whichever events these are: when one thread runs \<^verbatim>\<open>a = b\<close> and
  another \<^verbatim>\<open>b = a\<close>, and each has taken its first lock, neither can go on. The copy and
  the move constructor lock the event under construction only, never the source.
\<close>

theorem Event_assign_deadlock:
  "(case run_threads [0, 1] (cross_assign ha hb) of
      None \<Rightarrow> False
    | Some m \<Rightarrow> deadlocked m \<and> m_handlersLocker m 0 = Some 0 \<and> m_handlersLocker m 1 = Some 1)
   \<and> Lock 1 \<notin> set (Event_copy 0 1)
   \<and> Lock 1 \<notin> set (Event_move 0 1)"
  by (simp add: cross_assign_def thread_step_def Event_assign_def Event_copy_def Event_move_def
      deadlocked_def blocked_def upt_rec)

text \<open>
  C7, which the code does not meet. The lambda in \<open>CallAsync\<close> calls \<^verbatim>\<open>call\<close>, a name that
  is not declared; \<^verbatim>\<open>Call\<close> is never reached, so \<open>CallAsync\<close> cannot be instantiated,
  whatever the event holds.
\<close>

theorem CallAsync_undeclared:
  "CallAsync target params w = Inl (Undeclared ''call'')
   \<and> CallAsync target params w \<noteq> Inr (Call target params w)"
  by (simp add: CallAsync_def Event_callable_def)

end
